theory Spec2Isabelle
  imports Complex_Main "HOL-Library.Sublist"
begin

section \<open>Data model of the load balancer (load\_balancer.py)\<close>

text \<open>
  A backend is one dictionary of the list \<^verbatim>\<open>BACKENDS\<close>. Only the
  \<^verbatim>\<open>healthy\<close> entry is ever written after start-up.
\<close>

record backend =
  name :: string
  url :: string
  type :: string
  healthy :: bool
  color :: string

text \<open>An entry of \<^verbatim>\<open>request_history\<close>.\<close>

record history_entry =
  timestamp :: string
  path :: string
  rtype :: string
  backend_name :: string
  duration :: real
  status :: string
  optimized :: bool

text \<open>
  The module-level globals. The three \<^verbatim>\<open>defaultdict(int)\<close> counters are total
  functions with value 0 at a key never written, \<^verbatim>\<open>response_times\<close> is a
  \<^verbatim>\<open>defaultdict(list)\<close>. Python integers are unbounded, so they are \<open>int\<close>;
  clock readings and durations are Python floats, idealised as \<open>real\<close>.
\<close>

record lb_state =
  BACKENDS :: "backend list"
  active_connections :: "string \<Rightarrow> int"
  total_requests :: "string \<Rightarrow> int"
  failed_requests :: "string \<Rightarrow> int"
  response_times :: "string \<Rightarrow> real list"
  request_history :: "history_entry list"
  current_index :: int
  ALGORITHM :: string

definition initial_backends :: "backend list" where
  "initial_backends =
     [\<lparr>name = ''ServerA'', url = ''http://localhost:5001'', type = ''video'',
        healthy = True, color = ''#FF6B6B''\<rparr>,
      \<lparr>name = ''ServerB'', url = ''http://localhost:5002'', type = ''api'',
        healthy = True, color = ''#4ECDC4''\<rparr>,
      \<lparr>name = ''ServerC'', url = ''http://localhost:5003'', type = ''image'',
        healthy = True, color = ''#95E1D3''\<rparr>]"

definition initial_state :: lb_state where
  "initial_state =
     \<lparr>BACKENDS = initial_backends,
      active_connections = (\<lambda>_. 0),
      total_requests = (\<lambda>_. 0),
      failed_requests = (\<lambda>_. 0),
      response_times = (\<lambda>_. []),
      request_history = [],
      current_index = 0,
      ALGORITHM = ''content-based''\<rparr>"

section \<open>Selection algorithms\<close>

definition get_healthy_backends :: "lb_state \<Rightarrow> backend list" where
  "get_healthy_backends s = filter healthy (BACKENDS s)"

text \<open>
  Python's \<^verbatim>\<open>min(xs, key=f)\<close>: one left-to-right pass that replaces the current
  minimum only by an element with a strictly smaller key, so the first minimal element
  is returned. On an empty sequence it raises \<^verbatim>\<open>ValueError\<close>, which is \<open>None\<close> here.
\<close>

fun min_from :: "('a \<Rightarrow> int) \<Rightarrow> 'a \<Rightarrow> 'a list \<Rightarrow> 'a" where
  "min_from key m [] = m"
| "min_from key m (x # xs) = min_from key (if key x < key m then x else m) xs"

definition py_min :: "('a \<Rightarrow> int) \<Rightarrow> 'a list \<Rightarrow> 'a option" where
  "py_min key xs = (case xs of [] \<Rightarrow> None | x # xs' \<Rightarrow> Some (min_from key x xs'))"

definition startswith :: "string \<Rightarrow> string \<Rightarrow> bool" where
  "startswith s p = prefix p s"

definition endswith :: "string \<Rightarrow> string \<Rightarrow> bool" where
  "endswith s e = suffix e s"

definition contains :: "string \<Rightarrow> string \<Rightarrow> bool" where
  "contains s sub = sublist sub s"

text \<open>
  Every selection function returns the chosen backend (\<open>None\<close> for Python's
  \<^verbatim>\<open>None\<close>) together with the globals after the call. Each call is taken as one
  atomic step on the globals.
\<close>

definition round_robin :: "lb_state \<Rightarrow> backend option \<times> lb_state" where
  "round_robin s =
     (let backends = get_healthy_backends s in
      if backends = [] then (None, s)
      else (Some (backends ! nat (current_index s mod int (length backends))),
            s\<lparr>current_index := current_index s + 1\<rparr>))"

definition least_connections :: "lb_state \<Rightarrow> backend option \<times> lb_state" where
  "least_connections s =
     (let backends = get_healthy_backends s in
      if backends = [] then (None, s)
      else (py_min (\<lambda>b. active_connections s (name b)) backends, s))"

definition content_based_routing :: "lb_state \<Rightarrow> string \<Rightarrow> backend option \<times> lb_state" where
  "content_based_routing s p =
     (let backends = get_healthy_backends s in
      if backends = [] then (None, s)
      else if startswith p ''video/'' then
        (let video_servers = filter (\<lambda>b. type b = ''video'') backends in
         if video_servers \<noteq> []
         then (py_min (\<lambda>b. active_connections s (name b)) video_servers, s)
         else round_robin s)
      else if startswith p ''api/'' then
        (let api_servers = filter (\<lambda>b. type b = ''api'') backends in
         if api_servers \<noteq> []
         then (py_min (\<lambda>b. active_connections s (name b)) api_servers, s)
         else round_robin s)
      else if startswith p ''image/'' then
        (let image_servers = filter (\<lambda>b. type b = ''image'') backends in
         if image_servers \<noteq> []
         then (py_min (\<lambda>b. active_connections s (name b)) image_servers, s)
         else round_robin s)
      else round_robin s)"

definition large_file_extensions :: "string list" where
  "large_file_extensions = [''.mp4'', ''.mkv'', ''.avi'', ''.zip'', ''.iso'']"

definition file_size_based_routing :: "lb_state \<Rightarrow> string \<Rightarrow> backend option \<times> lb_state" where
  "file_size_based_routing s p =
     (let backends = get_healthy_backends s in
      if backends = [] then (None, s)
      else
        (let is_large_file =
               (list_ex (\<lambda>ext. endswith p ext) large_file_extensions
                \<or> contains p ''video/'') in
         if is_large_file
         then (py_min (\<lambda>b. active_connections s (name b)) backends, s)
         else round_robin s))"

definition select_backend :: "lb_state \<Rightarrow> string \<Rightarrow> backend option \<times> lb_state" where
  "select_backend s p =
     (if ALGORITHM s = ''round-robin'' then round_robin s
      else if ALGORITHM s = ''least-connections'' then least_connections s
      else if ALGORITHM s = ''content-based'' then content_based_routing s p
      else if ALGORITHM s = ''file-size'' then file_size_based_routing s p
      else round_robin s)"

section \<open>The proxy entry point\<close>

text \<open>
  What the transport collaborator hands back: the upstream response, or an exception
  (connection error or time-out) raised by \<^verbatim>\<open>requests.request\<close>.
\<close>

record upstream =
  status_code :: nat
  content :: string
  headers :: "(string \<times> string) list"

datatype forward_outcome = Returned upstream | Raised

text \<open>
  A Flask return value: the relayed upstream response, or \<^verbatim>\<open>jsonify(d), code\<close>
  with the dictionary as an association list.
\<close>

datatype response = Response upstream | Jsonify "(string \<times> string) list" nat

text \<open>
  The readings one call of \<^verbatim>\<open>proxy\<close> takes from outside: \<^verbatim>\<open>time.time()\<close> on
  entry, the outcome of the forward, \<^verbatim>\<open>time.time()\<close> when the forward has ended,
  and the formatted \<^verbatim>\<open>datetime.now()\<close>.
\<close>

record request_io =
  start_time :: real
  forward :: forward_outcome
  end_time :: real
  now :: string

definition request_type :: "string \<Rightarrow> string" where
  "request_type p =
     (if startswith p ''video/'' then ''video''
      else if startswith p ''api/'' then ''api''
      else if startswith p ''image/'' then ''image''
      else ''default'')"

text \<open>\<^verbatim>\<open>request_history.append(e)\<close> followed by \<^verbatim>\<open>pop(0)\<close> when longer than 50.\<close>

definition append_history :: "history_entry \<Rightarrow> history_entry list \<Rightarrow> history_entry list" where
  "append_history e h = (let h' = h @ [e] in if length h' > 50 then tl h' else h')"

text \<open>Lines 157--159: the two increments under the lock.\<close>

definition track_connection :: "string \<Rightarrow> lb_state \<Rightarrow> lb_state" where
  "track_connection n s =
     s\<lparr>active_connections := (active_connections s)(n := active_connections s n + 1),
       total_requests := (total_requests s)(n := total_requests s n + 1)\<rparr>"

text \<open>Line 184: \<^verbatim>\<open>response_times[backend_name].append(duration)\<close>.\<close>

definition record_response_time :: "string \<Rightarrow> real \<Rightarrow> lb_state \<Rightarrow> lb_state" where
  "record_response_time n d s =
     s\<lparr>response_times := (response_times s)(n := response_times s n @ [d])\<rparr>"

text \<open>
  Lines 187--198. Python's \<^verbatim>\<open>round(x, 2)\<close> on floats is the parameter \<open>round2\<close>
  of every function that rounds.
\<close>

definition log_success ::
  "(real \<Rightarrow> real) \<Rightarrow> string \<Rightarrow> string \<Rightarrow> backend \<Rightarrow> real \<Rightarrow> lb_state \<Rightarrow> lb_state" where
  "log_success round2 stamp p b d s =
     s\<lparr>request_history :=
          append_history
            \<lparr>timestamp = stamp, path = ''/'' @ p, rtype = request_type p,
             backend_name = name b, duration = round2 (d * 1000),
             status = ''success'', optimized = (type b = request_type p)\<rparr>
            (request_history s)\<rparr>"

text \<open>Lines 214--226: the lock section of the exception handler.\<close>

definition handle_failure ::
  "(real \<Rightarrow> real) \<Rightarrow> string \<Rightarrow> string \<Rightarrow> backend \<Rightarrow> real \<Rightarrow> lb_state \<Rightarrow> lb_state" where
  "handle_failure round2 stamp p b d s =
     s\<lparr>failed_requests := (failed_requests s)(name b := failed_requests s (name b) + 1),
       request_history :=
          append_history
            \<lparr>timestamp = stamp, path = ''/'' @ p, rtype = request_type p,
             backend_name = name b, duration = round2 (d * 1000),
             status = ''failed'', optimized = False\<rparr>
            (request_history s)\<rparr>"

text \<open>Lines 237--239: the \<^verbatim>\<open>finally\<close> block.\<close>

definition release_connection :: "string \<Rightarrow> lb_state \<Rightarrow> lb_state" where
  "release_connection n s =
     s\<lparr>active_connections := (active_connections s)(n := active_connections s n - 1)\<rparr>"

definition no_healthy_response :: response where
  "no_healthy_response = Jsonify [(''error'', ''No healthy backends available'')] 503"

definition bad_gateway_response :: "string \<Rightarrow> response" where
  "bad_gateway_response n = Jsonify [(''error'', ''Backend unavailable''), (''backend'', n)] 502"

text \<open>
  One call of \<^verbatim>\<open>proxy\<close> run from entry to return with nothing interleaved. Logging
  and the dashboard broadcast write none of the globals and are left out.
\<close>

definition proxy ::
  "(real \<Rightarrow> real) \<Rightarrow> request_io \<Rightarrow> string \<Rightarrow> lb_state \<Rightarrow> response \<times> lb_state" where
  "proxy round2 io p s =
     (case select_backend s p of
        (None, s0) \<Rightarrow> (no_healthy_response, s0)
      | (Some b, s0) \<Rightarrow>
          (let s1 = track_connection (name b) s0;
               d = end_time io - start_time io;
               (resp, s2) =
                 (case forward io of
                    Returned r \<Rightarrow>
                      (Response r,
                       log_success round2 (now io) p b d (record_response_time (name b) d s1))
                  | Raised \<Rightarrow>
                      (bad_gateway_response (name b),
                       handle_failure round2 (now io) p b d s1))
           in (resp, release_connection (name b) s2)))"

section \<open>Statistics\<close>

text \<open>The slice \<^verbatim>\<open>xs[-n:]\<close> for positive \<open>n\<close>.\<close>

definition last_n :: "nat \<Rightarrow> 'a list \<Rightarrow> 'a list" where
  "last_n n xs = drop (length xs - n) xs"

definition avg_response_time_ms :: "(real \<Rightarrow> real) \<Rightarrow> real list \<Rightarrow> real" where
  "avg_response_time_ms round2 ts =
     (if ts \<noteq> []
      then round2 (sum_list (last_n 10 ts) / real (length (last_n 10 ts)) * 1000)
      else 0)"

record backend_stats =
  stats_name :: string
  stats_url :: string
  stats_type :: string
  stats_healthy :: bool
  stats_active_connections :: int
  stats_total_requests :: int
  stats_failed_requests :: int
  stats_avg_response_time_ms :: real

text \<open>The \<^verbatim>\<open>"backends"\<close> list of the \<^verbatim>\<open>/lb/stats\<close> reply.\<close>

definition stats :: "(real \<Rightarrow> real) \<Rightarrow> lb_state \<Rightarrow> backend_stats list" where
  "stats round2 s =
     map (\<lambda>b. \<lparr>stats_name = name b, stats_url = url b, stats_type = type b,
                stats_healthy = healthy b,
                stats_active_connections = active_connections s (name b),
                stats_total_requests = total_requests s (name b),
                stats_failed_requests = failed_requests s (name b),
                stats_avg_response_time_ms =
                  avg_response_time_ms round2 (response_times s (name b))\<rparr>)
         (BACKENDS s)"

section \<open>Changing the algorithm\<close>

definition valid :: "string list" where
  "valid = [''round-robin'', ''least-connections'', ''content-based'', ''file-size'']"

text \<open>
  The parsed body of a request: what \<^verbatim>\<open>request.json\<close> evaluates to. A JSON object
  is the list of its members in the order they are written; Python's dictionary keeps the
  last member of a repeated key.
\<close>

datatype json =
    JNull
  | JBool bool
  | JNumber real
  | JString string
  | JArray "json list"
  | JObject "(string \<times> json) list"

definition dict_get :: "(string \<times> json) list \<Rightarrow> string \<Rightarrow> json option" where
  "dict_get kvs k = map_of (rev kvs) k"

text \<open>
  The ways \<^verbatim>\<open>change_algorithm\<close> ends without returning: \<^verbatim>\<open>request.json\<close> fails
  (no JSON body or one that does not parse; Flask answers the request with its own client
  error), or \<^verbatim>\<open>data.get\<close> is called on a body that is not an object
  (\<^verbatim>\<open>AttributeError\<close>, answered with a server error).
\<close>

datatype error = JsonLoadingFailed | AttributeError

text \<open>
  The argument is the body: \<open>None\<close> when \<^verbatim>\<open>request.json\<close> fails. The test
  \<^verbatim>\<open>new_algo in valid\<close> compares with strings, so a value that is absent or not a
  string is in no case a member.
\<close>

definition change_algorithm ::
  "json option \<Rightarrow> lb_state \<Rightarrow> (error + response) \<times> lb_state" where
  "change_algorithm body s =
     (case body of
        None \<Rightarrow> (Inl JsonLoadingFailed, s)
      | Some (JObject data) \<Rightarrow>
          (case dict_get data ''algorithm'' of
             Some (JString new_algo) \<Rightarrow>
               if new_algo \<in> set valid
               then (Inr (Jsonify [(''message'', ''Algorithm changed to '' @ new_algo)] 200),
                     s\<lparr>ALGORITHM := new_algo\<rparr>)
               else (Inr (Jsonify [(''error'', ''Invalid algorithm'')] 400), s)
           | _ \<Rightarrow> (Inr (Jsonify [(''error'', ''Invalid algorithm'')] 400), s))
      | Some _ \<Rightarrow> (Inl AttributeError, s))"

section \<open>The health checker\<close>

text \<open>
  The result of one \<^verbatim>\<open>requests.get(url + "/health", timeout=3)\<close>: a status code, or
  an exception (time-out, refused connection).
\<close>

datatype probe_outcome = Status nat | ProbeRaised

definition probe :: "probe_outcome \<Rightarrow> backend \<Rightarrow> backend" where
  "probe out b =
     (case out of
        Status c \<Rightarrow> b\<lparr>healthy := (c = 200)\<rparr>
      | ProbeRaised \<Rightarrow> b\<lparr>healthy := False\<rparr>)"

text \<open>One pass of the \<^verbatim>\<open>for backend in BACKENDS\<close> loop.\<close>

definition health_check_pass :: "(backend \<Rightarrow> probe_outcome) \<Rightarrow> lb_state \<Rightarrow> lb_state" where
  "health_check_pass outcome s = s\<lparr>BACKENDS := map (\<lambda>b. probe (outcome b) b) (BACKENDS s)\<rparr>"

text \<open>
  The \<^verbatim>\<open>while True\<close> loop never returns; \<open>health_check n\<close> is the state after its
  first \<open>n\<close> passes, pass \<open>k\<close> seeing the outcomes \<open>outcomes k\<close>.
\<close>

fun health_check :: "nat \<Rightarrow> (nat \<Rightarrow> backend \<Rightarrow> probe_outcome) \<Rightarrow> lb_state \<Rightarrow> lb_state" where
  "health_check 0 outcomes s = s"
| "health_check (Suc n) outcomes s =
     health_check_pass (outcomes n) (health_check n outcomes s)"

section \<open>Concurrent requests\<close>

text \<open>
  Flask serves each request on its own thread, so calls of \<^verbatim>\<open>proxy\<close> interleave with
  each other, with the health checker and with \<^verbatim>\<open>change_algorithm\<close>. A request thread
  is at one of these points: backend selected, counters not yet touched; inside the
  \<^verbatim>\<open>try\<close>, waiting for the forward; forward returned and duration stored, history
  not yet written; response decided, \<^verbatim>\<open>finally\<close> not yet run; returned.
\<close>

datatype thread =
    Selected real string backend
  | Forwarding real string backend
  | Recording string backend real upstream
  | Finishing string response
  | Done response

record config =
  globals :: lb_state
  threads :: "thread list"

datatype event =
    Arrive real string
  | Advance nat string
  | Complete nat forward_outcome real string
  | Probe nat probe_outcome
  | ChangeAlgorithm "json option"

text \<open>
  \<open>Arrive t p\<close>: a new request for path \<open>p\<close> enters at clock reading \<open>t\<close> and selects.
  \<open>Advance i stamp\<close>: thread \<open>i\<close> runs its next lock section (\<open>stamp\<close> is the formatted
  time a history entry gets). \<open>Complete i out t stamp\<close>: the forward of thread \<open>i\<close>
  ends with \<open>out\<close> at clock reading \<open>t\<close>; on an exception the handler's lock section
  runs in the same step. \<open>Probe k out\<close>: the health checker probes backend
  \<open>k\<close>. An event that does not apply leaves the configuration as it is.
\<close>

definition exec :: "(real \<Rightarrow> real) \<Rightarrow> event \<Rightarrow> config \<Rightarrow> config" where
  "exec round2 e c =
     (let s = globals c; ts = threads c in
      case e of
        Arrive t p \<Rightarrow>
          (case select_backend s p of
             (None, s') \<Rightarrow> \<lparr>globals = s', threads = ts @ [Done no_healthy_response]\<rparr>
           | (Some b, s') \<Rightarrow> \<lparr>globals = s', threads = ts @ [Selected t p b]\<rparr>)
      | Advance i stamp \<Rightarrow>
          (if i < length ts then
             (case ts ! i of
                Selected t p b \<Rightarrow>
                  \<lparr>globals = track_connection (name b) s, threads = ts[i := Forwarding t p b]\<rparr>
              | Recording p b d r \<Rightarrow>
                  \<lparr>globals = log_success round2 stamp p b d s,
                   threads = ts[i := Finishing (name b) (Response r)]\<rparr>
              | Finishing n resp \<Rightarrow>
                  \<lparr>globals = release_connection n s, threads = ts[i := Done resp]\<rparr>
              | _ \<Rightarrow> c)
           else c)
      | Complete i out t' stamp \<Rightarrow>
          (if i < length ts then
             (case ts ! i of
                Forwarding t p b \<Rightarrow>
                  (case out of
                     Returned r \<Rightarrow>
                       \<lparr>globals = record_response_time (name b) (t' - t) s,
                        threads = ts[i := Recording p b (t' - t) r]\<rparr>
                   | Raised \<Rightarrow>
                       \<lparr>globals = handle_failure round2 stamp p b (t' - t) s,
                        threads = ts[i := Finishing (name b) (bad_gateway_response (name b))]\<rparr>)
              | _ \<Rightarrow> c)
           else c)
      | Probe k out \<Rightarrow>
          (if k < length (BACKENDS s)
           then c\<lparr>globals := s\<lparr>BACKENDS := (BACKENDS s)[k := probe out (BACKENDS s ! k)]\<rparr>\<rparr>
           else c)
      | ChangeAlgorithm a \<Rightarrow> c\<lparr>globals := snd (change_algorithm a s)\<rparr>)"

fun run :: "(real \<Rightarrow> real) \<Rightarrow> event list \<Rightarrow> config \<Rightarrow> config" where
  "run round2 [] c = c"
| "run round2 (e # es) c = run round2 es (exec round2 e c)"

definition initial_config :: config where
  "initial_config = \<lparr>globals = initial_state, threads = []\<rparr>"

section \<open>Sample inputs\<close>

definition all_down :: lb_state where
  "all_down = initial_state\<lparr>BACKENDS := map (\<lambda>b. b\<lparr>healthy := False\<rparr>) initial_backends\<rparr>"

definition sample_io :: request_io where
  "sample_io = \<lparr>start_time = 10, forward = Raised, end_time = 12, now = ''12:00:00''\<rparr>"

definition busy :: lb_state where
  "busy = initial_state\<lparr>active_connections := (\<lambda>n. if n = ''ServerA'' then 2 else 1)\<rparr>"

text \<open>Requests served one after the other, each call of \<open>proxy\<close> running to its end.\<close>

fun serve :: "(real \<Rightarrow> real) \<Rightarrow> (request_io \<times> string) list \<Rightarrow> lb_state \<Rightarrow> lb_state" where
  "serve round2 [] s = s"
| "serve round2 ((io, p) # rs) s = serve round2 rs (snd (proxy round2 io p s))"

definition ok_io :: request_io where
  "ok_io = \<lparr>start_time = 10,
            forward = Returned \<lparr>status_code = 200, content = ''ok'', headers = []\<rparr>,
            end_time = 11, now = ''12:00:01''\<rparr>"

text \<open>\<open>n\<close> successive calls of \<open>round_robin\<close>, with the backends they return in order.\<close>

fun round_robin_n :: "nat \<Rightarrow> lb_state \<Rightarrow> backend option list \<times> lb_state" where
  "round_robin_n 0 s = ([], s)"
| "round_robin_n (Suc n) s =
     (case round_robin s of (b, s1) \<Rightarrow>
        (case round_robin_n n s1 of (bs, s2) \<Rightarrow> (b # bs, s2)))"

section \<open>Requests in flight\<close>

text \<open>
  A request is in flight on backend \<open>n\<close> from the increments of lines 157--159 until the
  \<^verbatim>\<open>finally\<close> block has run; it is awaiting its forward while it is inside the
  \<^verbatim>\<open>requests.request\<close> call.
\<close>

fun in_flight :: "string \<Rightarrow> thread \<Rightarrow> bool" where
  "in_flight n (Forwarding t p b) = (name b = n)"
| "in_flight n (Recording p b d r) = (name b = n)"
| "in_flight n (Finishing m resp) = (m = n)"
| "in_flight n (Selected t p b) = False"
| "in_flight n (Done resp) = False"


fun awaiting :: "string \<Rightarrow> thread \<Rightarrow> bool" where
  "awaiting n (Forwarding t p b) = (name b = n)"
| "awaiting n _ = False"

fun thread_backend :: "thread \<Rightarrow> string option" where
  "thread_backend (Selected t p b) = Some (name b)"
| "thread_backend (Forwarding t p b) = Some (name b)"
| "thread_backend (Recording p b d r) = Some (name b)"
| "thread_backend (Finishing m resp) = Some m"
| "thread_backend (Done resp) = None"

definition active_matches_in_flight :: "config \<Rightarrow> bool" where
  "active_matches_in_flight c =
     (\<forall>n. active_connections (globals c) n = int (length (filter (in_flight n) (threads c))))"

definition failed_within_total :: "config \<Rightarrow> bool" where
  "failed_within_total c =
     (\<forall>n. failed_requests (globals c) n + int (length (filter (awaiting n) (threads c)))
            \<le> total_requests (globals c) n)"

definition threads_known :: "config \<Rightarrow> bool" where
  "threads_known c =
     (distinct (map name (BACKENDS (globals c)))
      \<and> (\<forall>t \<in> set (threads c). \<forall>n. thread_backend t = Some n \<longrightarrow>
             n \<in> set (map name (BACKENDS (globals c)))))"

definition sample_schedule :: "event list" where
  "sample_schedule =
     [Arrive 0 ''video/movie.mp4'', Advance 0 ''12:00:00'', Arrive 1 ''api/users'',
      Advance 1 ''12:00:01'', Complete 0 Raised 2 ''12:00:02'']"

section \<open>Facts about the selection algorithms\<close>

lemma min_from_le:
  "key (min_from key m xs) \<le> key m \<and> (\<forall>x \<in> set xs. key (min_from key m xs) \<le> key x)"
proof (induction xs arbitrary: m)
  case Nil
  show ?case by simp
next
  case (Cons x xs)
  let ?m' = "if key x < key m then x else m"
  from Cons.IH[of ?m'] have a: "key (min_from key ?m' xs) \<le> key ?m'"
    and b: "\<forall>y \<in> set xs. key (min_from key ?m' xs) \<le> key y" by blast+
  have c: "key ?m' \<le> key m" "key ?m' \<le> key x" by simp_all
  from a c have "key (min_from key ?m' xs) \<le> key m" "key (min_from key ?m' xs) \<le> key x"
    by linarith+
  with b show ?case by simp
qed

lemma min_from_first:
  "min_from key m xs = m \<or>
   (\<exists>i < length xs. xs ! i = min_from key m xs \<and> key (xs ! i) < key m
       \<and> (\<forall>j < i. key (xs ! i) < key (xs ! j)))"
proof (induction xs arbitrary: m)
  case Nil
  show ?case by simp
next
  case (Cons x xs)
  let ?m' = "if key x < key m then x else m"
  let ?r = "min_from key ?m' xs"
  have r: "min_from key m (x # xs) = ?r" by simp
  have c: "key ?m' \<le> key m" "key ?m' \<le> key x" by simp_all
  from Cons.IH[of ?m'] consider (same) "?r = ?m'"
    | (later) i where "i < length xs" "xs ! i = ?r" "key (xs ! i) < key ?m'"
        "\<forall>j < i. key (xs ! i) < key (xs ! j)"
    by blast
  then show ?case
  proof cases
    case same
    show ?thesis
    proof (cases "key x < key m")
      case True
      with same have "(x # xs) ! 0 = ?r" "key ((x # xs) ! 0) < key m" by simp_all
      then have "\<exists>i < length (x # xs). (x # xs) ! i = ?r \<and> key ((x # xs) ! i) < key m
          \<and> (\<forall>j < i. key ((x # xs) ! i) < key ((x # xs) ! j))"
        by (intro exI[of _ 0]) simp
      with r show ?thesis by presburger
    next
      case False
      with same r show ?thesis by simp
    qed
  next
    case later
    from later(3) c have lt: "key (xs ! i) < key m" "key (xs ! i) < key x" by linarith+
    have "\<forall>j < Suc i. key ((x # xs) ! Suc i) < key ((x # xs) ! j)"
    proof (intro allI impI)
      fix j assume "j < Suc i"
      then show "key ((x # xs) ! Suc i) < key ((x # xs) ! j)"
        using lt later(4) by (cases j) simp_all
    qed
    with later(1,2) lt(1)
    have "\<exists>i < length (x # xs). (x # xs) ! i = ?r \<and> key ((x # xs) ! i) < key m
          \<and> (\<forall>j < i. key ((x # xs) ! i) < key ((x # xs) ! j))"
      by (intro exI[of _ "Suc i"]) simp
    with r show ?thesis by presburger
  qed
qed

lemma py_min_first_minimal:
  assumes "xs \<noteq> []"
  shows "\<exists>b i. py_min key xs = Some b \<and> i < length xs \<and> xs ! i = b
           \<and> (\<forall>x \<in> set xs. key b \<le> key x) \<and> (\<forall>j < i. key b < key (xs ! j))"
proof -
  from assms obtain m ys where xs: "xs = m # ys" by (cases xs) auto
  let ?b = "min_from key m ys"
  have p: "py_min key xs = Some ?b" by (simp add: py_min_def xs)
  have le: "\<forall>x \<in> set xs. key ?b \<le> key x"
    using min_from_le[of key m ys] by (simp add: xs)
  from min_from_first[of key m ys] consider (head) "?b = m"
    | (later) i where "i < length ys" "ys ! i = ?b" "key (ys ! i) < key m"
        "\<forall>j < i. key (ys ! i) < key (ys ! j)"
    by blast
  then have "\<exists>i < length xs. xs ! i = ?b \<and> (\<forall>j < i. key ?b < key (xs ! j))"
  proof cases
    case head
    then show ?thesis by (intro exI[of _ 0]) (simp add: xs)
  next
    case later
    have "\<forall>j < Suc i. key ?b < key (xs ! j)"
    proof (intro allI impI)
      fix j assume "j < Suc i"
      then show "key ?b < key (xs ! j)"
        using later by (cases j) (simp_all add: xs)
    qed
    with later(1,2) show ?thesis by (intro exI[of _ "Suc i"]) (simp add: xs)
  qed
  with p le show ?thesis by blast
qed

lemma py_min_None_iff: "py_min key xs = None \<longleftrightarrow> xs = []"
  by (simp add: py_min_def split: list.splits)

lemma round_robin_None_iff: "fst (round_robin s) = None \<longleftrightarrow> get_healthy_backends s = []"
  by (simp add: round_robin_def Let_def)

lemma round_robin_None_state: "get_healthy_backends s = [] \<Longrightarrow> round_robin s = (None, s)"
  by (simp add: round_robin_def)

lemma least_connections_None_iff:
  "fst (least_connections s) = None \<longleftrightarrow> get_healthy_backends s = []"
  by (simp add: least_connections_def Let_def py_min_None_iff)

lemma py_min_Some: "xs \<noteq> [] \<Longrightarrow> \<exists>y. py_min key xs = Some y"
  by (simp add: py_min_def split: list.splits)

lemma round_robin_Some: "get_healthy_backends s \<noteq> [] \<Longrightarrow> \<exists>y. fst (round_robin s) = Some y"
  by (simp add: round_robin_def Let_def)

lemma content_based_routing_None_iff:
  "fst (content_based_routing s p) = None \<longleftrightarrow> get_healthy_backends s = []"
proof (cases "get_healthy_backends s = []")
  case True
  then show ?thesis by (simp add: content_based_routing_def)
next
  case False
  then have "\<exists>y. fst (content_based_routing s p) = Some y"
    by (auto simp: content_based_routing_def Let_def dest: py_min_Some round_robin_Some)
  with False show ?thesis by auto
qed

lemma file_size_based_routing_None_iff:
  "fst (file_size_based_routing s p) = None \<longleftrightarrow> get_healthy_backends s = []"
proof (cases "get_healthy_backends s = []")
  case True
  then show ?thesis by (simp add: file_size_based_routing_def)
next
  case False
  then have "\<exists>y. fst (file_size_based_routing s p) = Some y"
    by (auto simp: file_size_based_routing_def Let_def dest: py_min_Some round_robin_Some)
  with False show ?thesis by auto
qed

lemma select_backend_None_iff:
  "fst (select_backend s p) = None \<longleftrightarrow> get_healthy_backends s = []"
  by (simp add: select_backend_def round_robin_None_iff least_connections_None_iff
      content_based_routing_None_iff file_size_based_routing_None_iff)

lemma select_backend_None_state:
  "get_healthy_backends s = [] \<Longrightarrow> select_backend s p = (None, s)"
  by (simp add: select_backend_def round_robin_def least_connections_def
      content_based_routing_def file_size_based_routing_def)
text \<open>
  C6: for every algorithm name and every path, \<open>select_backend\<close> returns \<open>None\<close> exactly when
  no backend is healthy; then \<open>proxy\<close> answers 503 and leaves every global as it was; with
  a healthy backend it never returns \<open>None\<close>.
\<close>

theorem select_backend_none_iff_no_healthy:
  "(fst (select_backend s p) = None \<longleftrightarrow> get_healthy_backends s = [])
   \<and> (fst (select_backend s p) = None \<longrightarrow>
        proxy round2 io p s = (Jsonify [(''error'', ''No healthy backends available'')] 503, s))
   \<and> ((\<exists>b \<in> set (BACKENDS s). healthy b) \<longrightarrow> fst (select_backend s p) \<noteq> None)"
proof (intro conjI impI)
  show iff: "fst (select_backend s p) = None \<longleftrightarrow> get_healthy_backends s = []"
    by (rule select_backend_None_iff)
  show "proxy round2 io p s = (Jsonify [(''error'', ''No healthy backends available'')] 503, s)"
    if "fst (select_backend s p) = None"
  proof -
    from that iff have "get_healthy_backends s = []" by simp
    then have "select_backend s p = (None, s)" by (rule select_backend_None_state)
    then show ?thesis by (simp add: proxy_def no_healthy_response_def)
  qed
  show "fst (select_backend s p) \<noteq> None" if "\<exists>b \<in> set (BACKENDS s). healthy b"
  proof -
    from that have "get_healthy_backends s \<noteq> []"
      by (auto simp: get_healthy_backends_def filter_empty_conv)
    with iff show ?thesis by simp
  qed
qed

theorem select_backend_none_iff_no_healthy_witness:
  "get_healthy_backends all_down = []
   \<and> fst (select_backend all_down ''video/movie.mp4'') = None
   \<and> proxy id sample_io ''video/movie.mp4'' all_down
       = (Jsonify [(''error'', ''No healthy backends available'')] 503, all_down)"
proof -
  have e: "get_healthy_backends all_down = []"
    by (simp add: get_healthy_backends_def all_down_def initial_backends_def)
  with select_backend_none_iff_no_healthy [of all_down "''video/movie.mp4''" id sample_io]
  show ?thesis by blast
qed

lemma request_type_video: "request_type p = ''video'' \<longleftrightarrow> startswith p ''video/''"
  by (simp add: request_type_def)

lemma request_type_api: "request_type p = ''api'' \<longleftrightarrow> startswith p ''api/''"
  by (auto simp: request_type_def startswith_def prefix_def)

lemma request_type_image: "request_type p = ''image'' \<longleftrightarrow> startswith p ''image/''"
  by (auto simp: request_type_def startswith_def prefix_def)

lemma round_robin_pick:
  "get_healthy_backends s \<noteq> [] \<Longrightarrow>
   round_robin s =
     (Some (get_healthy_backends s ! nat (current_index s mod int (length (get_healthy_backends s)))),
      s\<lparr>current_index := current_index s + 1\<rparr>)"
  by (simp add: round_robin_def Let_def)

text \<open>
  C8: over a non-empty healthy list \<open>least_connections\<close> returns a backend with the least
  active-connection count, and of the backends with that count the first in declaration
  order; so no healthy backend is strictly less loaded than the one chosen.
\<close>

theorem least_connections_first_minimal:
  assumes "get_healthy_backends s \<noteq> []"
  shows "\<exists>b i. least_connections s = (Some b, s)
           \<and> i < length (get_healthy_backends s) \<and> get_healthy_backends s ! i = b
           \<and> (\<forall>b' \<in> set (get_healthy_backends s).
                 active_connections s (name b) \<le> active_connections s (name b'))
           \<and> (\<forall>j < i. active_connections s (name b)
                         < active_connections s (name (get_healthy_backends s ! j)))"
proof -
  from py_min_first_minimal[OF assms, of "\<lambda>b. active_connections s (name b)"]
  obtain b i where "py_min (\<lambda>b. active_connections s (name b)) (get_healthy_backends s) = Some b"
    "i < length (get_healthy_backends s)" "get_healthy_backends s ! i = b"
    "\<forall>x \<in> set (get_healthy_backends s). active_connections s (name b) \<le> active_connections s (name x)"
    "\<forall>j < i. active_connections s (name b) < active_connections s (name (get_healthy_backends s ! j))"
    by blast
  moreover from assms have "least_connections s
      = (py_min (\<lambda>b. active_connections s (name b)) (get_healthy_backends s), s)"
    by (simp add: least_connections_def)
  ultimately show ?thesis by auto
qed

theorem least_connections_first_minimal_witness:
  "get_healthy_backends busy \<noteq> []
   \<and> fst (least_connections busy) = Some (initial_backends ! 1)
   \<and> (\<exists>b i. least_connections busy = (Some b, busy)
           \<and> i < length (get_healthy_backends busy) \<and> get_healthy_backends busy ! i = b
           \<and> (\<forall>b' \<in> set (get_healthy_backends busy).
                 active_connections busy (name b) \<le> active_connections busy (name b'))
           \<and> (\<forall>j < i. active_connections busy (name b)
                         < active_connections busy (name (get_healthy_backends busy ! j))))"
proof -
  have h: "get_healthy_backends busy \<noteq> []"
    by (simp add: get_healthy_backends_def busy_def initial_state_def initial_backends_def)
  have e: "fst (least_connections busy) = Some (initial_backends ! 1)"
    by (simp add: least_connections_def get_healthy_backends_def busy_def initial_state_def
        initial_backends_def py_min_def)
  from h e least_connections_first_minimal[OF h] show ?thesis by blast
qed

text \<open>
  C9: \<open>content_based_routing\<close> classifies the path by its prefix (\<open>video/\<close>, \<open>api/\<close>,
  \<open>image/\<close>). When some healthy backend has the matching type it returns a least-loaded one
  of those and leaves the cursor alone; when none has, or the path has none of the three
  prefixes, the result is that of \<open>round_robin\<close> over all healthy backends.
\<close>

theorem content_based_routing_by_affinity:
  assumes "get_healthy_backends s \<noteq> []"
  shows "let t = request_type p;
             matching = filter (\<lambda>b. type b = t) (get_healthy_backends s) in
         (t = ''video'' \<longleftrightarrow> startswith p ''video/'')
         \<and> (t = ''api'' \<longleftrightarrow> startswith p ''api/'')
         \<and> (t = ''image'' \<longleftrightarrow> startswith p ''image/'')
         \<and> (if t \<in> {''video'', ''api'', ''image''} \<and> matching \<noteq> []
            then \<exists>b. content_based_routing s p = (Some b, s) \<and> b \<in> set matching
                   \<and> (\<forall>b' \<in> set matching.
                         active_connections s (name b) \<le> active_connections s (name b'))
            else content_based_routing s p = round_robin s
                 \<and> round_robin s =
                     (Some (get_healthy_backends s
                              ! nat (current_index s mod int (length (get_healthy_backends s)))),
                      s\<lparr>current_index := current_index s + 1\<rparr>))"
proof -
  let ?hs = "get_healthy_backends s"
  let ?key = "\<lambda>b. active_connections s (name b)"
  let ?t = "request_type p"
  let ?m = "filter (\<lambda>b. type b = ?t) ?hs"
  have pick: "\<exists>b. py_min ?key xs = Some b \<and> b \<in> set xs \<and> (\<forall>b' \<in> set xs. ?key b \<le> ?key b')"
    if "xs \<noteq> []" for xs
    using py_min_first_minimal[OF that, of ?key] by (metis nth_mem)
  have cbr: "content_based_routing s p =
      (if ?t \<in> {''video'', ''api'', ''image''} \<and> ?m \<noteq> [] then (py_min ?key ?m, s)
       else round_robin s)"
    using assms
    by (auto simp: content_based_routing_def request_type_def Let_def startswith_def prefix_def)
  have "\<exists>b. content_based_routing s p = (Some b, s) \<and> b \<in> set ?m
           \<and> (\<forall>b' \<in> set ?m. ?key b \<le> ?key b')"
    if "?t \<in> {''video'', ''api'', ''image''} \<and> ?m \<noteq> []"
  proof -
    from that have "?m \<noteq> []" by blast
    from pick[OF this] that cbr show ?thesis by auto
  qed
  moreover have "content_based_routing s p = round_robin s"
    if "\<not> (?t \<in> {''video'', ''api'', ''image''} \<and> ?m \<noteq> [])"
    using that cbr by presburger
  moreover note round_robin_pick[OF assms] request_type_video[of p] request_type_api[of p]
    request_type_image[of p]
  ultimately show ?thesis unfolding Let_def by presburger
qed

theorem content_based_routing_by_affinity_witness:
  "get_healthy_backends busy \<noteq> []
   \<and> content_based_routing busy ''api/users'' = (Some (initial_backends ! 1), busy)
   \<and> content_based_routing busy ''index.html'' = round_robin busy"
proof -
  have h: "get_healthy_backends busy \<noteq> []"
    by (simp add: get_healthy_backends_def busy_def initial_state_def initial_backends_def)
  have t: "request_type ''index.html'' = ''default''" "request_type ''api/users'' = ''api''"
    by (simp_all add: request_type_def startswith_def)
  have m: "filter (\<lambda>b. type b = ''api'') (get_healthy_backends busy) = [initial_backends ! 1]"
    by (simp add: get_healthy_backends_def busy_def initial_state_def initial_backends_def)
  from content_based_routing_by_affinity[OF h, of "''index.html''"] t
  have a: "content_based_routing busy ''index.html'' = round_robin busy"
    by (simp add: Let_def)
  from content_based_routing_by_affinity[OF h, of "''api/users''"] t m
  have b: "content_based_routing busy ''api/users'' = (Some (initial_backends ! 1), busy)"
    by (simp add: Let_def)
  from h a b show ?thesis by blast
qed

section \<open>Changing the algorithm and probing health\<close>

text \<open>
  C4 as stated names the fourth policy \<open>file-size-based\<close>; \<open>change_algorithm\<close> rejects
  that name.
\<close>

theorem change_algorithm_rejects_file_size_based:
  "change_algorithm (Some (JObject [(''algorithm'', JString ''file-size-based'')])) initial_state
     = (Inr (Jsonify [(''error'', ''Invalid algorithm'')] 400), initial_state)"
  by (simp add: change_algorithm_def dict_get_def valid_def)

text \<open>
  C4, amended: \<open>change_algorithm\<close> accepts exactly the four names \<open>round-robin\<close>,
  \<open>least-connections\<close>, \<open>content-based\<close> and \<open>file-size\<close>: given one of them as the
  \<open>algorithm\<close> member of the body it sets \<open>ALGORITHM\<close> to that name and answers 200. For
  every other name it answers 400 and leaves the globals as they were.
\<close>

theorem change_algorithm_accepts_exactly_valid:
  assumes "dict_get data ''algorithm'' = Some (JString a)"
  shows "(a \<in> {''round-robin'', ''least-connections'', ''content-based'', ''file-size''} \<longrightarrow>
      change_algorithm (Some (JObject data)) s
        = (Inr (Jsonify [(''message'', ''Algorithm changed to '' @ a)] 200),
           s\<lparr>ALGORITHM := a\<rparr>))
   \<and> (a \<notin> {''round-robin'', ''least-connections'', ''content-based'', ''file-size''} \<longrightarrow>
      change_algorithm (Some (JObject data)) s
        = (Inr (Jsonify [(''error'', ''Invalid algorithm'')] 400), s))"
  using assms by (auto simp: change_algorithm_def valid_def)

theorem change_algorithm_accepts_exactly_valid_witness:
  "dict_get [(''algorithm'', JString ''file-size'')] ''algorithm'' = Some (JString ''file-size'')
   \<and> change_algorithm (Some (JObject [(''algorithm'', JString ''file-size'')])) initial_state
     = (Inr (Jsonify [(''message'', ''Algorithm changed to file-size'')] 200),
        initial_state\<lparr>ALGORITHM := ''file-size''\<rparr>)
   \<and> dict_get [(''algorithm'', JString ''random'')] ''algorithm'' = Some (JString ''random'')
   \<and> change_algorithm (Some (JObject [(''algorithm'', JString ''random'')])) initial_state
     = (Inr (Jsonify [(''error'', ''Invalid algorithm'')] 400), initial_state)"
proof -
  have a: "dict_get [(''algorithm'', JString ''file-size'')] ''algorithm''
      = Some (JString ''file-size'')"
    and b: "dict_get [(''algorithm'', JString ''random'')] ''algorithm''
      = Some (JString ''random'')"
    by (simp_all add: dict_get_def)
  from change_algorithm_accepts_exactly_valid [OF a, of initial_state]
    change_algorithm_accepts_exactly_valid [OF b, of initial_state] a b
  show ?thesis by simp
qed

text \<open>
  C5 as stated lets every 2xx answer count as a successful probe; a healthy backend whose
  health endpoint answers 204 is marked unhealthy.
\<close>

theorem probe_204_marks_unhealthy:
  "healthy (initial_backends ! 0) \<and> \<not> healthy (probe (Status 204) (initial_backends ! 0))"
  by (simp add: probe_def initial_backends_def)

text \<open>
  C5, amended: one probe sets the health flag in one step, whatever it was before: to
  healthy when the answer has status 200, to unhealthy on any other status, a time-out or
  a connection error. Nothing else of the backend changes. So one failed probe flips a
  healthy backend at once and one later probe answered with 200 restores it, and a pass of
  the health checker does this for every backend.
\<close>

theorem probe_sets_health_without_debounce:
  "healthy (probe out b) = (out = Status 200)
   \<and> probe out b = b\<lparr>healthy := (out = Status 200)\<rparr>
   \<and> (out \<noteq> Status 200 \<longrightarrow> \<not> healthy (probe out b)
        \<and> healthy (probe (Status 200) (probe out b)))
   \<and> map healthy (BACKENDS (health_check_pass outcome s))
       = map (\<lambda>b. outcome b = Status 200) (BACKENDS s)
   \<and> map name (BACKENDS (health_check_pass outcome s)) = map name (BACKENDS s)"
  by (cases out) (auto simp: probe_def health_check_pass_def split: probe_outcome.splits)

theorem probe_sets_health_without_debounce_witness:
  "ProbeRaised \<noteq> Status 200
   \<and> \<not> healthy (probe ProbeRaised (initial_backends ! 0))
   \<and> healthy (probe (Status 200) (probe ProbeRaised (initial_backends ! 0)))"
  using probe_sets_health_without_debounce [of ProbeRaised "initial_backends ! 0" "\<lambda>_. ProbeRaised" initial_state]
  by blast

section \<open>Bookkeeping of one request\<close>

lemma round_robin_snd:
  "snd (round_robin s) = s \<or> snd (round_robin s) = s\<lparr>current_index := current_index s + 1\<rparr>"
  by (simp add: round_robin_def Let_def)

lemma least_connections_snd: "snd (least_connections s) = s"
  by (simp add: least_connections_def Let_def)

lemma content_based_routing_snd:
  "snd (content_based_routing s p) = s \<or> content_based_routing s p = round_robin s"
  by (simp add: content_based_routing_def Let_def)

lemma file_size_based_routing_snd:
  "snd (file_size_based_routing s p) = s \<or> file_size_based_routing s p = round_robin s"
  by (simp add: file_size_based_routing_def Let_def)

lemma select_backend_snd:
  "snd (select_backend s p) = s
   \<or> snd (select_backend s p) = s\<lparr>current_index := current_index s + 1\<rparr>"
  using round_robin_snd[of s] least_connections_snd[of s] content_based_routing_snd[of s p]
    file_size_based_routing_snd[of s p]
  unfolding select_backend_def by presburger

lemma select_backend_keeps:
  assumes "select_backend s p = (r, s0)"
  shows "BACKENDS s0 = BACKENDS s" "active_connections s0 = active_connections s"
    "total_requests s0 = total_requests s" "failed_requests s0 = failed_requests s"
    "response_times s0 = response_times s" "request_history s0 = request_history s"
    "ALGORITHM s0 = ALGORITHM s"
proof -
  from select_backend_snd[of s p] assms
  have "s0 = s \<or> s0 = s\<lparr>current_index := current_index s + 1\<rparr>" by simp
  then show "BACKENDS s0 = BACKENDS s" "active_connections s0 = active_connections s"
    "total_requests s0 = total_requests s" "failed_requests s0 = failed_requests s"
    "response_times s0 = response_times s" "request_history s0 = request_history s"
    "ALGORITHM s0 = ALGORITHM s"
    by auto
qed

lemma proxy_Raised:
  assumes "select_backend s p = (Some b, s0)" "forward io = Raised"
  shows "proxy round2 io p s =
    (bad_gateway_response (name b),
     release_connection (name b)
       (handle_failure round2 (now io) p b (end_time io - start_time io)
          (track_connection (name b) s0)))"
  using assms by (simp add: proxy_def Let_def)

lemma proxy_Returned:
  assumes "select_backend s p = (Some b, s0)" "forward io = Returned r"
  shows "proxy round2 io p s =
    (Response r,
     release_connection (name b)
       (log_success round2 (now io) p b (end_time io - start_time io)
          (record_response_time (name b) (end_time io - start_time io)
             (track_connection (name b) s0))))"
  using assms by (simp add: proxy_def Let_def)

lemma healthy_initial: "get_healthy_backends initial_state = initial_backends"
  by (simp add: get_healthy_backends_def initial_state_def initial_backends_def)

lemma select_initial_video:
  "select_backend initial_state ''video/movie.mp4'' = (Some (initial_backends ! 0), initial_state)"
proof -
  have a: "ALGORITHM initial_state = ''content-based''" by (simp add: initial_state_def)
  have p: "startswith ''video/movie.mp4'' ''video/''" by (simp add: startswith_def)
  have v: "filter (\<lambda>b. type b = ''video'') initial_backends = [initial_backends ! 0]"
    by (simp add: initial_backends_def)
  have d: "initial_backends \<noteq> []" by (simp add: initial_backends_def)
  show ?thesis
    by (simp add: select_backend_def a content_based_routing_def healthy_initial p v d py_min_def)
qed

text \<open>
  C3 as stated has the failed request's duration appended to the backend's latency list;
  the exception handler does not touch \<^verbatim>\<open>response_times\<close>.
\<close>

theorem proxy_failure_keeps_response_times:
  "fst (proxy id sample_io ''video/movie.mp4'' initial_state)
     = Jsonify [(''error'', ''Backend unavailable''), (''backend'', ''ServerA'')] 502
   \<and> end_time sample_io - start_time sample_io = 2
   \<and> response_times (snd (proxy id sample_io ''video/movie.mp4'' initial_state)) ''ServerA'' = []"
proof -
  have f: "forward sample_io = Raised" by (simp add: sample_io_def)
  have n: "name (initial_backends ! 0) = ''ServerA''" by (simp add: initial_backends_def)
  have d: "end_time sample_io - start_time sample_io = 2" by (simp add: sample_io_def)
  have r: "response_times initial_state ''ServerA'' = []" by (simp add: initial_state_def)
  show ?thesis
    unfolding proxy_Raised[OF select_initial_video f] n
    by (simp add: d r bad_gateway_response_def release_connection_def handle_failure_def
        track_connection_def)
qed

text \<open>
  C3, amended: when the forward to the selected backend raises (failure or time-out),
  \<open>proxy\<close> returns the 502 response naming the backend; the backend's active count,
  incremented at dispatch, is decremented again; its total and failed counts are each one
  higher; a failed history entry with \<open>optimized = False\<close> is appended; and the latency
  lists are left as they were.
\<close>

theorem proxy_forward_failure:
  assumes "select_backend s p = (Some b, s0)" and "forward io = Raised"
  shows "fst (proxy round2 io p s)
           = Jsonify [(''error'', ''Backend unavailable''), (''backend'', name b)] 502
    \<and> snd (proxy round2 io p s)
        = release_connection (name b)
            (handle_failure round2 (now io) p b (end_time io - start_time io)
               (track_connection (name b) s0))
    \<and> active_connections (snd (proxy round2 io p s)) = active_connections s
    \<and> total_requests (snd (proxy round2 io p s))
        = (total_requests s)(name b := total_requests s (name b) + 1)
    \<and> failed_requests (snd (proxy round2 io p s))
        = (failed_requests s)(name b := failed_requests s (name b) + 1)
    \<and> response_times (snd (proxy round2 io p s)) = response_times s
    \<and> request_history (snd (proxy round2 io p s))
        = append_history
            \<lparr>timestamp = now io, path = ''/'' @ p, rtype = request_type p,
             backend_name = name b, duration = round2 ((end_time io - start_time io) * 1000),
             status = ''failed'', optimized = False\<rparr>
            (request_history s)"
  using select_backend_keeps[OF assms(1)]
  by (simp add: proxy_Raised[OF assms] bad_gateway_response_def release_connection_def
      handle_failure_def track_connection_def fun_eq_iff)

theorem proxy_forward_failure_witness:
  "select_backend initial_state ''video/movie.mp4'' = (Some (initial_backends ! 0), initial_state)
   \<and> forward sample_io = Raised
   \<and> fst (proxy id sample_io ''video/movie.mp4'' initial_state)
       = Jsonify [(''error'', ''Backend unavailable''), (''backend'', ''ServerA'')] 502
   \<and> failed_requests (snd (proxy id sample_io ''video/movie.mp4'' initial_state)) ''ServerA'' = 1
   \<and> active_connections (snd (proxy id sample_io ''video/movie.mp4'' initial_state)) ''ServerA'' = 0
   \<and> response_times (snd (proxy id sample_io ''video/movie.mp4'' initial_state)) ''ServerA'' = []"
proof -
  note sel = select_initial_video
  have f: "forward sample_io = Raised" by (simp add: sample_io_def)
  have n: "name (initial_backends ! 0) = ''ServerA''" by (simp add: initial_backends_def)
  have z: "failed_requests initial_state ''ServerA'' = 0"
    "active_connections initial_state ''ServerA'' = 0"
    "response_times initial_state ''ServerA'' = []"
    by (simp_all add: initial_state_def)
  note t = proxy_forward_failure[OF sel f, of id, unfolded n]
  note resp = t[THEN conjunct1]
  note act = t[THEN conjunct2, THEN conjunct2, THEN conjunct1]
  note fl = t[THEN conjunct2, THEN conjunct2, THEN conjunct2, THEN conjunct2, THEN conjunct1]
  note rt = t[THEN conjunct2, THEN conjunct2, THEN conjunct2, THEN conjunct2, THEN conjunct2,
      THEN conjunct1]
  from resp act fl rt z sel f show ?thesis by simp
qed

section \<open>The latency lists and the trailing average\<close>

lemma select_video_ServerA:
  assumes "BACKENDS s = initial_backends" "ALGORITHM s = ''content-based''"
  shows "select_backend s ''video/movie.mp4'' = (Some (initial_backends ! 0), s)"
proof -
  have h: "get_healthy_backends s = initial_backends"
    by (simp add: get_healthy_backends_def assms(1) initial_backends_def)
  have p: "startswith ''video/movie.mp4'' ''video/''" by (simp add: startswith_def)
  have v: "filter (\<lambda>b. type b = ''video'') initial_backends = [initial_backends ! 0]"
    by (simp add: initial_backends_def)
  have d: "initial_backends \<noteq> []" by (simp add: initial_backends_def)
  show ?thesis
    by (simp add: select_backend_def assms(2) content_based_routing_def h p v d py_min_def)
qed

lemma proxy_video_ok:
  assumes "BACKENDS s = initial_backends" "ALGORITHM s = ''content-based''"
  shows "BACKENDS (snd (proxy round2 ok_io ''video/movie.mp4'' s)) = initial_backends"
    "ALGORITHM (snd (proxy round2 ok_io ''video/movie.mp4'' s)) = ''content-based''"
    "response_times (snd (proxy round2 ok_io ''video/movie.mp4'' s)) ''ServerA''
       = response_times s ''ServerA'' @ [1]"
proof -
  have f: "forward ok_io = Returned \<lparr>status_code = 200, content = ''ok'', headers = []\<rparr>"
    by (simp add: ok_io_def)
  have n: "name (initial_backends ! 0) = ''ServerA''" by (simp add: initial_backends_def)
  have d: "end_time ok_io - start_time ok_io = 1" by (simp add: ok_io_def)
  note e = proxy_Returned[OF select_video_ServerA[OF assms] f, of round2, unfolded n d]
  show "BACKENDS (snd (proxy round2 ok_io ''video/movie.mp4'' s)) = initial_backends"
    by (simp add: e assms release_connection_def log_success_def record_response_time_def
        track_connection_def)
  show "ALGORITHM (snd (proxy round2 ok_io ''video/movie.mp4'' s)) = ''content-based''"
    by (simp add: e assms release_connection_def log_success_def record_response_time_def
        track_connection_def)
  show "response_times (snd (proxy round2 ok_io ''video/movie.mp4'' s)) ''ServerA''
       = response_times s ''ServerA'' @ [1]"
    by (simp add: e release_connection_def log_success_def record_response_time_def
        track_connection_def)
qed

lemma serve_video_grows:
  assumes "BACKENDS s = initial_backends" "ALGORITHM s = ''content-based''"
  shows "length (response_times (serve round2 (replicate n (ok_io, ''video/movie.mp4'')) s)
                   ''ServerA'')
         = length (response_times s ''ServerA'') + n"
  using assms
proof (induction n arbitrary: s)
  case 0
  show ?case by simp
next
  case (Suc n)
  note step = proxy_video_ok[OF Suc.prems, of round2]
  from Suc.IH[OF step(1,2)] step(3) show ?case by simp
qed

text \<open>
  C2 as stated bounds the stored latency sequence at 10 entries; after eleven forwarded
  requests to one backend its list holds eleven.
\<close>

theorem response_times_not_bounded:
  "length (response_times
             (serve id (replicate 11 (ok_io, ''video/movie.mp4'')) initial_state) ''ServerA'')
     = 11"
proof -
  have "BACKENDS initial_state = initial_backends" "ALGORITHM initial_state = ''content-based''"
    "response_times initial_state ''ServerA'' = []"
    by (simp_all add: initial_state_def)
  with serve_video_grows[of initial_state id 11] show ?thesis by simp
qed

lemma last_n_length: "length (last_n n xs) = min n (length xs)"
  by (simp add: last_n_def)

lemma last_n_snoc:
  "last_n n (xs @ [x])
     = (if length (last_n n xs) < n then last_n n xs @ [x] else tl (last_n n xs) @ [x])"
  if "0 < n"
proof (cases "length xs < n")
  case True
  then show ?thesis by (simp add: last_n_def)
next
  case False
  then have "Suc (length xs) - n = Suc (length xs - n)" by simp
  moreover have "tl (drop (length xs - n) xs) = drop (Suc (length xs - n)) xs"
    by (simp add: drop_Suc drop_tl)
  moreover from False that have "length xs - (length xs - n) = n" by simp
  moreover from that have "Suc 0 - n = 0" by simp
  ultimately show ?thesis using False by (simp add: last_n_def)
qed

lemma last_n_idem: "last_n n (last_n n xs) = last_n n xs"
  by (simp add: last_n_def)

section \<open>Round-robin\<close>

lemma mod_hit:
  fixes N K r :: nat
  assumes "r < K"
  shows "(Suc (N + K - 1 - r) mod K = 0) = (N mod K = r)"
proof -
  let ?m = "N mod K"
  from assms have K: "0 < K" by simp
  then have m: "?m < K" by simp
  from assms have e: "Suc (N + K - 1 - r) = N + (K - r)" by simp
  have red: "(N + (K - r)) mod K = (?m + (K - r)) mod K" by (simp add: mod_add_left_eq)
  show ?thesis
  proof (cases "?m < r")
    case True
    with assms have lt: "?m + (K - r) < K" and pos: "0 < ?m + (K - r)" by simp_all
    from lt have "(?m + (K - r)) mod K = ?m + (K - r)" by (rule mod_less)
    with pos have "(?m + (K - r)) mod K \<noteq> 0" by linarith
    with True show ?thesis unfolding e red by simp
  next
    case False
    with assms m have ge: "K \<le> ?m + (K - r)" and lt: "?m + (K - r) - K < K" by simp_all
    have "(?m + (K - r)) mod K = (?m + (K - r) - K) mod K" using ge by (rule le_mod_geq)
    also have "\<dots> = ?m + (K - r) - K" using lt by simp
    also from False assms have "\<dots> = ?m - r" by simp
    finally have "(?m + (K - r)) mod K = ?m - r" .
    with False show ?thesis unfolding e red by auto
  qed
qed

lemma count_residue:
  fixes K r :: nat
  assumes "r < K"
  shows "length (filter (\<lambda>i. i mod K = r) [0..<N]) = (N + K - 1 - r) div K"
proof (induction N)
  case 0
  from assms show ?case by simp
next
  case (Suc N)
  from assms have e: "Suc N + K - 1 - r = Suc (N + K - 1 - r)" by simp
  show ?case
    unfolding e div_Suc mod_hit[OF assms]
    using Suc.IH by simp
qed

lemma index_residue:
  fixes K j i :: nat and c :: int
  assumes "j < K"
  shows "(nat ((c + int i) mod int K) = j) = (i mod K = nat ((int j - c) mod int K))"
proof -
  from assms have K: "0 < int K" by simp
  have "(nat ((c + int i) mod int K) = j) = ((c + int i) mod int K = int j)"
    using K by (metis nat_int int_nat_eq pos_mod_sign)
  also have "\<dots> = ((c + int i) mod int K = int j mod int K)" using assms by simp
  also have "\<dots> = (int K dvd (c + int i) - int j)" by (rule mod_eq_dvd_iff)
  also have "(c + int i) - int j = int i - (int j - c)" by simp
  also have "(int K dvd int i - (int j - c)) = (int i mod int K = (int j - c) mod int K)"
    by (rule mod_eq_dvd_iff[symmetric])
  also have "\<dots> = (int (i mod K) = (int j - c) mod int K)" by (simp add: zmod_int)
  also have "\<dots> = (i mod K = nat ((int j - c) mod int K))"
    using K by (metis nat_int int_nat_eq pos_mod_sign)
  finally show ?thesis .
qed

lemma ceiling_of_nat_div:
  fixes N K :: nat
  assumes "0 < K" "\<not> K dvd N"
  shows "\<lceil>real N / real K\<rceil> = int (N div K) + 1"
proof -
  have "N = K * (N div K) + N mod K" by simp
  then have "real N = real K * real (N div K) + real (N mod K)"
    by (metis of_nat_add of_nat_mult)
  with assms(1) have q: "real N / real K = real (N div K) + real (N mod K) / real K"
    by (simp add: field_simps)
  from assms have "0 < N mod K" "N mod K < K" by (simp_all add: dvd_eq_mod_eq_0)
  then have "0 < real (N mod K) / real K" "real (N mod K) / real K < 1" by simp_all
  with q have "real (N div K) < real N / real K" "real N / real K \<le> real (N div K) + 1"
    by simp_all
  then show ?thesis by (simp add: ceiling_eq_iff)
qed

lemma floor_or_ceiling:
  fixes N K r :: nat
  assumes "r < K"
  shows "int ((N + K - 1 - r) div K) = \<lfloor>real N / real K\<rfloor>
       \<or> int ((N + K - 1 - r) div K) = \<lceil>real N / real K\<rceil>"
proof -
  let ?v = "(N + K - 1 - r) div K"
  from assms have K: "0 < K" by simp
  have fl: "\<lfloor>real N / real K\<rfloor> = int (N div K)" by (rule floor_divide_of_nat_eq)
  from assms have lo: "N div K \<le> ?v" by (intro div_le_mono) simp
  have hi: "?v \<le> (N + K - 1) div K" by (intro div_le_mono) simp
  show ?thesis
  proof (cases "K dvd N")
    case True
    then obtain q where N: "N = K * q" by (rule dvdE)
    from K have Kn: "K \<noteq> 0" by simp
    have "(K * q + (K - 1)) div K = q + (K - 1) div K" by (rule div_mult_self4[OF Kn])
    also from K have "(K - 1) div K = 0" by simp
    finally have c: "(K * q + (K - 1)) div K = q" by simp
    from K N have a: "N + K - 1 = K * q + (K - 1)" by simp
    from K N have b: "N div K = q" by simp
    have "(N + K - 1) div K = N div K" unfolding a b by (rule c)
    with hi lo have "?v = N div K" by simp
    with fl show ?thesis by simp
  next
    case False
    have "(N + K - 1) div K \<le> (N + K) div K" by (intro div_le_mono) simp
    also from K have "\<dots> = N div K + 1" by simp
    finally have "(N + K - 1) div K \<le> N div K + 1" .
    with hi lo have "?v = N div K \<or> ?v = N div K + 1" by linarith
    with fl ceiling_of_nat_div[OF K False] show ?thesis by auto
  qed
qed

lemma round_robin_n_unfold:
  assumes "get_healthy_backends s = hs" "hs \<noteq> []"
  shows "round_robin_n N s =
    (map (\<lambda>i. Some (hs ! nat ((current_index s + int i) mod int (length hs)))) [0..<N],
     s\<lparr>current_index := current_index s + int N\<rparr>)"
  using assms
proof (induction N arbitrary: s)
  case 0
  show ?case by simp
next
  case (Suc N)
  let ?s1 = "s\<lparr>current_index := current_index s + 1\<rparr>"
  from Suc.prems have rr: "round_robin s
      = (Some (hs ! nat (current_index s mod int (length hs))), ?s1)"
    by (simp add: round_robin_def)
  from Suc.prems have h1: "get_healthy_backends ?s1 = hs"
    by (simp add: get_healthy_backends_def)
  have m: "map (\<lambda>i. Some (hs ! nat ((current_index s + int i) mod int (length hs)))) [0..<Suc N]
      = Some (hs ! nat (current_index s mod int (length hs)))
        # map (\<lambda>i. Some (hs ! nat ((current_index ?s1 + int i) mod int (length hs)))) [0..<N]"
    by (simp add: upt_conv_Cons map_Suc_upt[symmetric] add.assoc del: upt_Suc)
  show ?case
    unfolding m
    by (simp add: rr Suc.IH[OF h1 Suc.prems(2)] add.assoc)
qed

lemma count_list_filter: "count_list xs x = length (filter (\<lambda>y. y = x) xs)"
  by (induction xs) auto

text \<open>
  C7: over a non-empty healthy list \<open>round_robin\<close> returns the backend at index
  \<open>current_index mod length\<close> and increments \<open>current_index\<close> by one. So \<open>N\<close> successive
  calls over a fixed healthy list of \<open>K\<close> distinct backends, from any cursor value, return
  the backends in cyclic declaration order, each of them \<open>\<lfloor>N/K\<rfloor>\<close> or \<open>\<lceil>N/K\<rceil>\<close> times.
\<close>

theorem round_robin_cyclic_and_balanced:
  assumes "get_healthy_backends s = hs" and "hs \<noteq> []" and "distinct hs"
  shows "round_robin s
           = (Some (hs ! nat (current_index s mod int (length hs))),
              s\<lparr>current_index := current_index s + 1\<rparr>)
    \<and> fst (round_robin_n N s)
        = map (\<lambda>i. Some (hs ! nat ((current_index s + int i) mod int (length hs)))) [0..<N]
    \<and> current_index (snd (round_robin_n N s)) = current_index s + int N
    \<and> (\<forall>b \<in> set hs.
          int (count_list (fst (round_robin_n N s)) (Some b)) = \<lfloor>real N / real (length hs)\<rfloor>
        \<or> int (count_list (fst (round_robin_n N s)) (Some b)) = \<lceil>real N / real (length hs)\<rceil>)"
proof (intro conjI ballI)
  let ?K = "length hs"
  let ?c = "current_index s"
  from assms(2) have K: "0 < ?K" by simp
  show "round_robin s = (Some (hs ! nat (?c mod int ?K)), s\<lparr>current_index := ?c + 1\<rparr>)"
    using assms(1,2) by (simp add: round_robin_def)
  note u = round_robin_n_unfold[OF assms(1,2), of N]
  show "fst (round_robin_n N s) = map (\<lambda>i. Some (hs ! nat ((?c + int i) mod int ?K))) [0..<N]"
    by (simp add: u)
  show "current_index (snd (round_robin_n N s)) = ?c + int N" by (simp add: u)
  fix b assume "b \<in> set hs"
  then obtain j where j: "j < ?K" "hs ! j = b" by (auto simp: in_set_conv_nth)
  let ?r = "nat ((int j - ?c) mod int ?K)"
  from K have r: "?r < ?K" by (simp add: nat_less_iff)
  have idx: "nat ((?c + int i) mod int ?K) < ?K" for i
    using K by (simp add: nat_less_iff)
  have hit: "(hs ! nat ((?c + int i) mod int ?K) = b) = (i mod ?K = ?r)" for i
    using nth_eq_iff_index_eq[OF assms(3) idx[of i] j(1)] j(2) index_residue[OF j(1), of ?c i]
    by simp
  have "count_list (fst (round_robin_n N s)) (Some b)
      = length (filter (\<lambda>i. i mod ?K = ?r) [0..<N])"
    by (simp add: u count_list_filter filter_map comp_def hit)
  also have "\<dots> = (N + ?K - 1 - ?r) div ?K" by (rule count_residue[OF r])
  finally have "count_list (fst (round_robin_n N s)) (Some b) = (N + ?K - 1 - ?r) div ?K" .
  with floor_or_ceiling[OF r, of N]
  show "int (count_list (fst (round_robin_n N s)) (Some b)) = \<lfloor>real N / real ?K\<rfloor>
        \<or> int (count_list (fst (round_robin_n N s)) (Some b)) = \<lceil>real N / real ?K\<rceil>"
    by simp
qed

theorem round_robin_cyclic_and_balanced_witness:
  "get_healthy_backends initial_state = initial_backends
   \<and> initial_backends \<noteq> [] \<and> distinct initial_backends
   \<and> fst (round_robin_n 4 initial_state)
       = [Some (initial_backends ! 0), Some (initial_backends ! 1), Some (initial_backends ! 2),
          Some (initial_backends ! 0)]
   \<and> current_index (snd (round_robin_n 4 initial_state)) = 4"
proof -
  have h: "get_healthy_backends initial_state = initial_backends" by (rule healthy_initial)
  have ne: "initial_backends \<noteq> []" and d: "distinct initial_backends"
    and l: "length initial_backends = 3"
    by (simp_all add: initial_backends_def)
  have c: "current_index initial_state = 0" by (simp add: initial_state_def)
  have n4: "[0..<4] = [0, 1, 2, 3]" by (simp add: upt_rec)
  note t = round_robin_cyclic_and_balanced[OF h ne d, of 4, unfolded l c]
  from t[THEN conjunct2, THEN conjunct1] t[THEN conjunct2, THEN conjunct2, THEN conjunct1]
  have "fst (round_robin_n 4 initial_state)
       = [Some (initial_backends ! 0), Some (initial_backends ! 1), Some (initial_backends ! 2),
          Some (initial_backends ! 0)]"
    "current_index (snd (round_robin_n 4 initial_state)) = 4"
    by (simp_all add: n4)
  with h ne d show ?thesis by blast
qed

section \<open>Invariants of the interleaved execution\<close>

lemma count_update:
  "i < length xs \<Longrightarrow>
   int (length (filter P (xs[i := y])))
     = int (length (filter P xs)) - (if P (xs ! i) then 1 else 0) + (if P y then 1 else 0)"
proof (induction xs arbitrary: i)
  case Nil
  then show ?case by simp
next
  case (Cons x xs)
  show ?case
  proof (cases i)
    case 0
    then show ?thesis by simp
  next
    case (Suc j)
    with Cons.prems have "j < length xs" by simp
    from Cons.IH[OF this] Suc show ?thesis by (auto split: if_splits)
  qed
qed





lemma exec_Arrive:
  "exec round2 (Arrive t p) c =
     (case select_backend (globals c) p of
        (None, s') \<Rightarrow> \<lparr>globals = s', threads = threads c @ [Done no_healthy_response]\<rparr>
      | (Some b, s') \<Rightarrow> \<lparr>globals = s', threads = threads c @ [Selected t p b]\<rparr>)"
  by (simp add: exec_def Let_def)

lemma exec_Advance:
  "exec round2 (Advance i stamp) c =
     (if i < length (threads c) then
        (case threads c ! i of
           Selected t p b \<Rightarrow>
             \<lparr>globals = track_connection (name b) (globals c),
              threads = (threads c)[i := Forwarding t p b]\<rparr>
         | Recording p b d r \<Rightarrow>
             \<lparr>globals = log_success round2 stamp p b d (globals c),
              threads = (threads c)[i := Finishing (name b) (Response r)]\<rparr>
         | Finishing n resp \<Rightarrow>
             \<lparr>globals = release_connection n (globals c), threads = (threads c)[i := Done resp]\<rparr>
         | _ \<Rightarrow> c)
      else c)"
  by (simp add: exec_def Let_def)

lemma exec_Complete:
  "exec round2 (Complete i out t' stamp) c =
     (if i < length (threads c) then
        (case threads c ! i of
           Forwarding t p b \<Rightarrow>
             (case out of
                Returned r \<Rightarrow>
                  \<lparr>globals = record_response_time (name b) (t' - t) (globals c),
                   threads = (threads c)[i := Recording p b (t' - t) r]\<rparr>
              | Raised \<Rightarrow>
                  \<lparr>globals = handle_failure round2 stamp p b (t' - t) (globals c),
                   threads = (threads c)[i := Finishing (name b) (bad_gateway_response (name b))]\<rparr>)
         | _ \<Rightarrow> c)
      else c)"
  by (simp add: exec_def Let_def)

lemma exec_Probe:
  "exec round2 (Probe k out) c =
     (if k < length (BACKENDS (globals c))
      then c\<lparr>globals := (globals c)\<lparr>BACKENDS := (BACKENDS (globals c))[k := probe out (BACKENDS (globals c) ! k)]\<rparr>\<rparr>
      else c)"
  by (simp add: exec_def Let_def)

lemma exec_ChangeAlgorithm:
  "exec round2 (ChangeAlgorithm a) c = c\<lparr>globals := snd (change_algorithm a (globals c))\<rparr>"
  by (simp add: exec_def Let_def)

lemma change_algorithm_keeps:
  "BACKENDS (snd (change_algorithm a s)) = BACKENDS s"
  "active_connections (snd (change_algorithm a s)) = active_connections s"
  "total_requests (snd (change_algorithm a s)) = total_requests s"
  "failed_requests (snd (change_algorithm a s)) = failed_requests s"
  "response_times (snd (change_algorithm a s)) = response_times s"
  by (simp_all add: change_algorithm_def split: option.splits json.splits)


lemma exec_preserves_failed:
  assumes "failed_within_total c"
  shows "failed_within_total (exec round2 e c)"
proof (cases e)
  case (Arrive t p)
  obtain r s' where sel: "select_backend (globals c) p = (r, s')" by (cases "select_backend (globals c) p")
  from select_backend_keeps(3,4)[OF sel] assms show ?thesis
    by (cases r) (simp_all add: Arrive exec_Arrive sel failed_within_total_def)
next
  case (Advance i stamp)
  show ?thesis
  proof (cases "i < length (threads c)")
    case False
    with assms show ?thesis by (simp add: Advance exec_Advance)
  next
    case True
    with assms show ?thesis
      by (cases "threads c ! i")
        (simp_all add: Advance exec_Advance failed_within_total_def count_update
          track_connection_def log_success_def release_connection_def)
  qed
next
  case (Complete i out t' stamp)
  show ?thesis
  proof (cases "i < length (threads c)")
    case False
    with assms show ?thesis by (simp add: Complete exec_Complete)
  next
    case True
    from assms have le: "failed_requests (globals c) n
        + int (length (filter (awaiting n) (threads c))) \<le> total_requests (globals c) n" for n
      by (simp add: failed_within_total_def)
    show ?thesis
    proof (cases "threads c ! i")
      case (Forwarding t p b)
      show ?thesis
        unfolding failed_within_total_def
      proof
        fix n
        from le[of n] True Forwarding show "failed_requests (globals (exec round2 e c)) n
          + int (length (filter (awaiting n) (threads (exec round2 e c))))
          \<le> total_requests (globals (exec round2 e c)) n"
          by (cases out)
            (auto simp: Complete exec_Complete count_update record_response_time_def
              handle_failure_def)
      qed
    qed (use assms True in \<open>simp_all add: Complete exec_Complete\<close>)
  qed
next
  case (Probe k out)
  with assms show ?thesis by (simp add: exec_Probe failed_within_total_def)
next
  case (ChangeAlgorithm a)
  with assms show ?thesis
    by (simp add: exec_ChangeAlgorithm failed_within_total_def change_algorithm_keeps)
qed






lemma run_preserves:
  assumes "P c" and "\<And>c e. P c \<Longrightarrow> P (exec round2 e c)"
  shows "P (run round2 es c)"
  using assms(1)
proof (induction es arbitrary: c)
  case Nil
  then show ?case by simp
next
  case (Cons e es)
  from Cons.IH[OF assms(2)[OF Cons.prems]] show ?case by simp
qed

lemma initial_invariants:
  "active_matches_in_flight initial_config" "failed_within_total initial_config"
  "threads_known initial_config"
  by (simp_all add: active_matches_in_flight_def failed_within_total_def threads_known_def
      initial_config_def initial_state_def initial_backends_def)





section \<open>The counters under every interleaving\<close>

lemma select_api_ServerB:
  assumes "BACKENDS s = initial_backends" "ALGORITHM s = ''content-based''"
  shows "select_backend s ''api/users'' = (Some (initial_backends ! 1), s)"
proof -
  have h: "get_healthy_backends s = initial_backends"
    by (simp add: get_healthy_backends_def assms(1) initial_backends_def)
  have p: "\<not> startswith ''api/users'' ''video/''" "startswith ''api/users'' ''api/''"
    by (simp_all add: startswith_def)
  have v: "filter (\<lambda>b. type b = ''api'') initial_backends = [initial_backends ! 1]"
    by (simp add: initial_backends_def)
  have d: "initial_backends \<noteq> []" by (simp add: initial_backends_def)
  show ?thesis
    by (simp add: select_backend_def assms(2) content_based_routing_def h p v d py_min_def)
qed

lemma sample_run:
  "run round2 sample_schedule initial_config =
     \<lparr>globals = handle_failure round2 ''12:00:02'' ''video/movie.mp4'' (initial_backends ! 0) 2
                  (track_connection ''ServerB'' (track_connection ''ServerA'' initial_state)),
      threads = [Finishing ''ServerA'' (bad_gateway_response ''ServerA''),
                 Forwarding 1 ''api/users'' (initial_backends ! 1)]\<rparr>"
proof -
  let ?A = "initial_backends ! 0" and ?B = "initial_backends ! 1"
  let ?s1 = "track_connection ''ServerA'' initial_state"
  have n: "name ?A = ''ServerA''" "name ?B = ''ServerB''"
    "name (initial_backends ! Suc 0) = ''ServerB''"
    by (simp_all add: initial_backends_def)
  have k: "BACKENDS ?s1 = initial_backends" "ALGORITHM ?s1 = ''content-based''"
    by (simp_all add: track_connection_def initial_state_def)
  have c1: "exec round2 (Arrive 0 ''video/movie.mp4'') initial_config
      = \<lparr>globals = initial_state, threads = [Selected 0 ''video/movie.mp4'' ?A]\<rparr>"
    by (simp add: exec_Arrive initial_config_def select_initial_video)
  have c2: "exec round2 (Advance 0 ''12:00:00'')
        \<lparr>globals = initial_state, threads = [Selected 0 ''video/movie.mp4'' ?A]\<rparr>
      = \<lparr>globals = ?s1, threads = [Forwarding 0 ''video/movie.mp4'' ?A]\<rparr>"
    by (simp add: exec_Advance n)
  have c3: "exec round2 (Arrive 1 ''api/users'')
        \<lparr>globals = ?s1, threads = [Forwarding 0 ''video/movie.mp4'' ?A]\<rparr>
      = \<lparr>globals = ?s1, threads = [Forwarding 0 ''video/movie.mp4'' ?A,
                                     Selected 1 ''api/users'' ?B]\<rparr>"
    by (simp add: exec_Arrive select_api_ServerB[OF k])
  have c4: "exec round2 (Advance 1 ''12:00:01'')
        \<lparr>globals = ?s1, threads = [Forwarding 0 ''video/movie.mp4'' ?A,
                                     Selected 1 ''api/users'' ?B]\<rparr>
      = \<lparr>globals = track_connection ''ServerB'' ?s1,
         threads = [Forwarding 0 ''video/movie.mp4'' ?A, Forwarding 1 ''api/users'' ?B]\<rparr>"
    by (simp add: exec_Advance n)
  have c5: "exec round2 (Complete 0 Raised 2 ''12:00:02'')
        \<lparr>globals = track_connection ''ServerB'' ?s1,
         threads = [Forwarding 0 ''video/movie.mp4'' ?A, Forwarding 1 ''api/users'' ?B]\<rparr>
      = \<lparr>globals = handle_failure round2 ''12:00:02'' ''video/movie.mp4'' ?A 2
                      (track_connection ''ServerB'' ?s1),
         threads = [Finishing ''ServerA'' (bad_gateway_response ''ServerA''),
                    Forwarding 1 ''api/users'' ?B]\<rparr>"
    by (simp add: exec_Complete n)
  show ?thesis
    unfolding sample_schedule_def run.simps c1 c2 c3 c4 c5 ..
qed



text \<open>
  C10: in every interleaving started from the initial globals, each backend's failed count
  is at most its total count; indeed the failed count plus the number of requests still
  waiting for their forward is at most the total count.
\<close>

theorem failed_requests_le_total_requests:
  "failed_requests (globals (run round2 es initial_config)) n
     \<le> total_requests (globals (run round2 es initial_config)) n
   \<and> failed_requests (globals (run round2 es initial_config)) n
       + int (length (filter (awaiting n) (threads (run round2 es initial_config))))
     \<le> total_requests (globals (run round2 es initial_config)) n"
proof -
  let ?c = "run round2 es initial_config"
  have "failed_within_total ?c"
    by (rule run_preserves[of failed_within_total, OF initial_invariants(2)]) (rule exec_preserves_failed)
  then have "failed_requests (globals ?c) n + int (length (filter (awaiting n) (threads ?c)))
      \<le> total_requests (globals ?c) n"
    by (simp add: failed_within_total_def)
  then show ?thesis by linarith
qed

theorem failed_requests_le_total_requests_witness:
  "failed_requests (globals (run id sample_schedule initial_config)) ''ServerA'' = 1
   \<and> total_requests (globals (run id sample_schedule initial_config)) ''ServerA'' = 1
   \<and> failed_requests (globals (run id sample_schedule initial_config)) ''ServerA''
       \<le> total_requests (globals (run id sample_schedule initial_config)) ''ServerA''"
proof -
  have n: "name (initial_backends ! 0) = ''ServerA''" by (simp add: initial_backends_def)
  have "failed_requests (globals (run id sample_schedule initial_config)) ''ServerA'' = 1"
    "total_requests (globals (run id sample_schedule initial_config)) ''ServerA'' = 1"
    by (simp_all add: sample_run handle_failure_def track_connection_def n initial_state_def)
  with failed_requests_le_total_requests[of id sample_schedule "''ServerA''"]
  show ?thesis by blast
qed

section \<open>One request alone in the interleaved model\<close>

text \<open>
  A request that runs through all its steps with nothing in between leaves the globals and
  the response of the corresponding call of \<open>proxy\<close>.
\<close>

lemma proxy_as_schedule:
  "run round2 [Arrive t p, Advance 0 stamp, Complete 0 out t' stamp, Advance 0 stamp,
               Advance 0 stamp] \<lparr>globals = s, threads = []\<rparr>
     = \<lparr>globals = snd (proxy round2 \<lparr>start_time = t, forward = out, end_time = t', now = stamp\<rparr> p s),
        threads = [Done (fst (proxy round2
                     \<lparr>start_time = t, forward = out, end_time = t', now = stamp\<rparr> p s))]\<rparr>"
proof -
  obtain r s0 where sel: "select_backend s p = (r, s0)" by (cases "select_backend s p")
  show ?thesis
  proof (cases r)
    case None
    with sel show ?thesis
      by (simp add: exec_Arrive exec_Advance exec_Complete proxy_def)
  next
    case (Some b)
    with sel show ?thesis
      by (cases out)
        (simp_all add: exec_Arrive exec_Advance exec_Complete proxy_def Let_def)
  qed
qed

section \<open>The latency lists under every request and every interleaving\<close>

lemma proxy_response_times_Returned:
  assumes "select_backend s p = (Some b, s0)" "forward io = Returned r"
  shows "response_times (snd (proxy round2 io p s))
    = (response_times s)(name b := response_times s (name b) @ [end_time io - start_time io])"
  using select_backend_keeps(5)[OF assms(1)]
  by (simp add: proxy_Returned[OF assms] release_connection_def log_success_def
      record_response_time_def track_connection_def)

lemma proxy_response_times_prefix:
  "prefix (response_times s n) (response_times (snd (proxy round2 io p s)) n)"
proof -
  obtain r s0 where sel: "select_backend s p = (r, s0)" by (cases "select_backend s p")
  note keep = select_backend_keeps(5)[OF sel]
  show ?thesis
  proof (cases r)
    case None
    with sel keep show ?thesis by (simp add: proxy_def)
  next
    case (Some b)
    show ?thesis
    proof (cases "forward io")
      case (Returned u)
      from proxy_response_times_Returned[OF sel[unfolded Some] Returned, of round2]
      show ?thesis by simp
    next
      case Raised
      from proxy_Raised[OF sel[unfolded Some] Raised, of round2] keep show ?thesis
        by (simp add: release_connection_def handle_failure_def track_connection_def)
    qed
  qed
qed

lemma exec_Complete_Returned_response_times:
  assumes "i < length (threads c)" "threads c ! i = Forwarding t q b"
  shows "response_times (globals (exec round2 (Complete i (Returned r) t' stamp) c))
    = (response_times (globals c))(name b := response_times (globals c) (name b) @ [t' - t])"
  using assms by (simp add: exec_Complete record_response_time_def)

lemma exec_response_times_prefix:
  "prefix (response_times (globals c) n) (response_times (globals (exec round2 e c)) n)"
proof (cases e)
  case (Arrive t p)
  obtain r s' where sel: "select_backend (globals c) p = (r, s')"
    by (cases "select_backend (globals c) p")
  from select_backend_keeps(5)[OF sel] show ?thesis
    by (cases r) (simp_all add: Arrive exec_Arrive sel)
next
  case (Advance i stamp)
  show ?thesis
  proof (cases "i < length (threads c)")
    case False
    then show ?thesis by (simp add: Advance exec_Advance)
  next
    case True
    then show ?thesis
      by (cases "threads c ! i")
        (simp_all add: Advance exec_Advance track_connection_def log_success_def
          release_connection_def)
  qed
next
  case (Complete i out t' stamp)
  show ?thesis
  proof (cases "i < length (threads c)")
    case False
    then show ?thesis by (simp add: Complete exec_Complete)
  next
    case True
    then show ?thesis
      by (cases "threads c ! i"; cases out)
        (simp_all add: Complete exec_Complete record_response_time_def handle_failure_def)
  qed
next
  case (Probe k out)
  then show ?thesis by (simp add: exec_Probe)
next
  case (ChangeAlgorithm a)
  then show ?thesis by (simp add: exec_ChangeAlgorithm change_algorithm_keeps)
qed

lemma run_response_times_prefix:
  "prefix (response_times (globals c) n) (response_times (globals (run round2 es c)) n)"
proof (induction es arbitrary: c)
  case Nil
  show ?case by simp
next
  case (Cons e es)
  from exec_response_times_prefix[of c n round2 e] Cons.IH[of "exec round2 e c"]
  show ?case by (simp add: prefix_order.trans)
qed

text \<open>
  C2, amended: the stored latency list of a backend is not bounded. A call of \<open>proxy\<close>
  whose forward gets a response appends the duration to the list of the chosen backend
  and changes no other list, and neither a call of \<open>proxy\<close> nor any step of any
  interleaving removes or changes an entry: every list only grows at its end. The stats
  query reads the last 10 entries only. That window holds at most 10 entries, behaves as a
  queue of capacity 10 that drops its oldest entry when a duration is appended while it is
  full, and the reported trailing average is the rounded mean of the window in
  milliseconds (0 while the list is empty).
\<close>

theorem stats_trailing_window:
  "(select_backend s p = (Some b, s0) \<and> forward io = Returned r \<longrightarrow>
      response_times (snd (proxy round2 io p s))
        = (response_times s)(name b := response_times s (name b) @ [end_time io - start_time io]))
   \<and> prefix (response_times s n) (response_times (snd (proxy round2 io p s)) n)
   \<and> (i < length (threads c) \<and> threads c ! i = Forwarding t q b' \<longrightarrow>
        response_times (globals (exec round2 (Complete i (Returned r') t' stamp) c))
          = (response_times (globals c))
              (name b' := response_times (globals c) (name b') @ [t' - t]))
   \<and> prefix (response_times (globals c) n) (response_times (globals (run round2 es c)) n)
   \<and> length (last_n 10 ts) = min 10 (length ts)
   \<and> last_n 10 (ts @ [d])
       = (if length (last_n 10 ts) < 10 then last_n 10 ts @ [d] else tl (last_n 10 ts) @ [d])
   \<and> avg_response_time_ms round2 ts = avg_response_time_ms round2 (last_n 10 ts)
   \<and> (ts \<noteq> [] \<longrightarrow> avg_response_time_ms round2 ts
         = round2 (sum_list (last_n 10 ts) / real (length (last_n 10 ts)) * 1000))
   \<and> avg_response_time_ms round2 [] = 0
   \<and> map stats_avg_response_time_ms (stats round2 s)
       = map (\<lambda>b. avg_response_time_ms round2 (response_times s (name b))) (BACKENDS s)"
proof (intro conjI impI)
  show "response_times (snd (proxy round2 io p s))
        = (response_times s)(name b := response_times s (name b) @ [end_time io - start_time io])"
    if "select_backend s p = (Some b, s0) \<and> forward io = Returned r"
    using that proxy_response_times_Returned by blast
  show "prefix (response_times s n) (response_times (snd (proxy round2 io p s)) n)"
    by (rule proxy_response_times_prefix)
  show "response_times (globals (exec round2 (Complete i (Returned r') t' stamp) c))
          = (response_times (globals c))
              (name b' := response_times (globals c) (name b') @ [t' - t])"
    if "i < length (threads c) \<and> threads c ! i = Forwarding t q b'"
    using that exec_Complete_Returned_response_times by blast
  show "prefix (response_times (globals c) n) (response_times (globals (run round2 es c)) n)"
    by (rule run_response_times_prefix)
  show "length (last_n 10 ts) = min 10 (length ts)" by (rule last_n_length)
  show "last_n 10 (ts @ [d])
       = (if length (last_n 10 ts) < 10 then last_n 10 ts @ [d] else tl (last_n 10 ts) @ [d])"
    by (rule last_n_snoc) simp
  have e: "last_n 10 ts = [] \<longleftrightarrow> ts = []"
    using last_n_length[of 10 ts] by (cases ts) auto
  show "avg_response_time_ms round2 ts = avg_response_time_ms round2 (last_n 10 ts)"
    by (simp add: avg_response_time_ms_def last_n_idem e)
  show "avg_response_time_ms round2 ts
         = round2 (sum_list (last_n 10 ts) / real (length (last_n 10 ts)) * 1000)"
    if "ts \<noteq> []" using that by (simp add: avg_response_time_ms_def)
  show "avg_response_time_ms round2 [] = 0" by (simp add: avg_response_time_ms_def)
  show "map stats_avg_response_time_ms (stats round2 s)
       = map (\<lambda>b. avg_response_time_ms round2 (response_times s (name b))) (BACKENDS s)"
    by (simp add: stats_def comp_def)
qed

theorem stats_trailing_window_witness:
  "select_backend initial_state ''video/movie.mp4'' = (Some (initial_backends ! 0), initial_state)
   \<and> forward ok_io = Returned \<lparr>status_code = 200, content = ''ok'', headers = []\<rparr>
   \<and> response_times (snd (proxy id ok_io ''video/movie.mp4'' initial_state)) ''ServerA'' = [1]
   \<and> response_times (snd (proxy id ok_io ''video/movie.mp4'' initial_state)) ''ServerB'' = []
   \<and> [1, 2, 3, 4, 5, 6, 7, 8, 9, 10, 11 :: real] \<noteq> []
   \<and> last_n 10 [1, 2, 3, 4, 5, 6, 7, 8, 9, 10, 11 :: real] = [2, 3, 4, 5, 6, 7, 8, 9, 10, 11]
   \<and> avg_response_time_ms id [1, 2, 3, 4, 5, 6, 7, 8, 9, 10, 11] = 6500"
proof -
  note sel = select_initial_video
  have f: "forward ok_io = Returned \<lparr>status_code = 200, content = ''ok'', headers = []\<rparr>"
    by (simp add: ok_io_def)
  have n: "name (initial_backends ! 0) = ''ServerA''" by (simp add: initial_backends_def)
  have d: "end_time ok_io - start_time ok_io = 1" by (simp add: ok_io_def)
  have z: "response_times initial_state = (\<lambda>_. [])" by (simp add: initial_state_def)
  have w: "last_n 10 [1, 2, 3, 4, 5, 6, 7, 8, 9, 10, 11 :: real] = [2, 3, 4, 5, 6, 7, 8, 9, 10, 11]"
    by (simp add: last_n_def)
  have ne: "[1, 2, 3, 4, 5, 6, 7, 8, 9, 10, 11 :: real] \<noteq> []" by simp
  note th = stats_trailing_window[of initial_state "''video/movie.mp4''" "initial_backends ! 0"
      initial_state ok_io "\<lparr>status_code = 200, content = ''ok'', headers = []\<rparr>" id
      "''ServerA''" 0 initial_config 0 "''''" "initial_backends ! 0"
      "\<lparr>status_code = 200, content = ''ok'', headers = []\<rparr>" 0 "''''" "[]"
      "[1, 2, 3, 4, 5, 6, 7, 8, 9, 10, 11]" 12]
  from th[THEN conjunct1] sel f
  have rt: "response_times (snd (proxy id ok_io ''video/movie.mp4'' initial_state))
      = (response_times initial_state)
          (name (initial_backends ! 0) := response_times initial_state (name (initial_backends ! 0))
             @ [end_time ok_io - start_time ok_io])"
    by blast
  have a: "response_times (snd (proxy id ok_io ''video/movie.mp4'' initial_state)) ''ServerA'' = [1]"
    "response_times (snd (proxy id ok_io ''video/movie.mp4'' initial_state)) ''ServerB'' = []"
    unfolding rt n d z by simp_all
  from th ne
  have "avg_response_time_ms id [1, 2, 3, 4, 5, 6, 7, 8, 9, 10, 11]
      = id (sum_list (last_n 10 [1, 2, 3, 4, 5, 6, 7, 8, 9, 10, 11])
            / real (length (last_n 10 [1, 2, 3, 4, 5, 6, 7, 8, 9, 10, 11 :: real])) * 1000)"
    by blast
  then have "avg_response_time_ms id [1, 2, 3, 4, 5, 6, 7, 8, 9, 10, 11] = 6500"
    unfolding w by simp
  with sel f a w ne show ?thesis by blast
qed

end
